theory Spec2Isabelle
  imports Main
begin

section \<open>Python strings and sequences\<close>

text \<open>
  A Python \<open>str\<close> is modelled as a \<^typ>\<open>string\<close>, one \<^typ>\<open>char\<close> per code point
  (code points below 256). A cursor handed to an extractor is a list index and has type
  \<^typ>\<open>nat\<close>; a cursor handed back is an \<^typ>\<open>int\<close>, because the source computes
  \<open>len(lines) - 1\<close> there.
\<close>

definition isspace :: "char \<Rightarrow> bool" where
  \<comment> \<open>The code points below 256 that \<open>str.strip()\<close> removes.\<close>
  "isspace c = (of_char c \<in> {9::nat, 10, 11, 12, 13, 28, 29, 30, 31, 32, 133, 160})"

definition strip :: "string \<Rightarrow> string" where
  "strip s = rev (dropWhile isspace (rev (dropWhile isspace s)))"

definition endswith :: "string \<Rightarrow> string \<Rightarrow> bool" where
  "endswith s suf = (length suf \<le> length s \<and> drop (length s - length suf) s = suf)"

definition str_find :: "string \<Rightarrow> char \<Rightarrow> int" where
  \<comment> \<open>\<open>s.find(c)\<close>: the lowest index of \<open>c\<close>, and \<open>-1\<close> when there is none.\<close>
  "str_find s c = (if c \<in> set s then int (length (takeWhile (\<lambda>x. x \<noteq> c) s)) else - 1)"

definition clamp_index :: "nat \<Rightarrow> int \<Rightarrow> nat" where
  \<comment> \<open>How a slice bound is read: a negative bound counts from the end, and every bound
      is cut to the range \<open>0..n\<close>.\<close>
  "clamp_index n k = (if k < 0 then nat (max (k + int n) 0) else min (nat k) n)"

definition py_slice :: "'a list \<Rightarrow> int \<Rightarrow> int \<Rightarrow> 'a list" where
  \<comment> \<open>\<open>xs[lo:hi]\<close>\<close>
  "py_slice xs lo hi =
     (let a = clamp_index (length xs) lo; b = clamp_index (length xs) hi
      in take (b - a) (drop a xs))"

definition py_slice_from :: "'a list \<Rightarrow> int \<Rightarrow> 'a list" where
  \<comment> \<open>\<open>xs[lo:]\<close>\<close>
  "py_slice_from xs lo = drop (clamp_index (length xs) lo) xs"

section \<open>Balance scanner\<close>

text \<open>
  \<open>get_balance(line, braces)\<close>: the two-character string \<open>braces\<close> is the pair of its
  characters; both call sites pass a literal of length two.
\<close>

definition get_balance :: "string \<Rightarrow> char \<times> char \<Rightarrow> int" where
  "get_balance line braces =
     sum_list (map (\<lambda>x. if x = fst braces then 1 else if x = snd braces then - 1 else 0) line)"

abbreviation curly :: "char \<times> char" where
  "curly \<equiv> (CHR ''{'', CHR ''}'')"

abbreviation parens :: "char \<times> char" where
  "parens \<equiv> (CHR ''('', CHR '')'')"

section \<open>Boundary extractors\<close>

subsection \<open>Curly one-liner\<close>

definition oneliner_step :: "nat \<times> char \<Rightarrow> int \<times> int \<Rightarrow> int \<times> int" where
  \<comment> \<open>One round of the \<open>for i, c in enumerate(line)\<close> loop on \<open>(start_clean, end_clean)\<close>.\<close>
  "oneliner_step ic se =
     (case ic of (i, c) \<Rightarrow> case se of (start_clean, end_clean) \<Rightarrow>
        (if c = CHR ''{'' \<and> start_clean = - 1 then int i + 1 else start_clean,
         if c = CHR ''}'' then int i else end_clean))"

definition extract_curly_oneliner :: "nat \<Rightarrow> string \<Rightarrow> string \<Rightarrow> int \<times> string \<times> string" where
  "extract_curly_oneliner start header line =
     (case fold oneliner_step (enumerate 0 line) (- 1, - 1) of
        (start_clean, end_clean) \<Rightarrow>
          (int start, header, py_slice line start_clean end_clean))"

subsection \<open>Curly multi-line\<close>

function curly_loop ::
  "nat \<Rightarrow> int \<Rightarrow> nat \<Rightarrow> string \<Rightarrow> string list \<Rightarrow> int \<times> string \<times> string" where
  "curly_loop j curly_balance start header lines =
     (if j < length lines then
        (let cb = curly_balance + get_balance (lines ! j) curly in
         if cb = 0 then
           (int j,
            header @ concat (py_slice lines (int start + 1) (int j + 1)),
            filter (\<lambda>c. c \<noteq> CHR ''}'') (concat (py_slice lines (int start + 1) (int j + 1))))
         else curly_loop (j + 1) cb start header lines)
      else (int (length lines) - 1, [], []))"
  by pat_completeness auto
termination
  by (relation "measure (\<lambda>(j, cb, start, header, lines). length lines - j)") auto

declare curly_loop.simps [simp del]

definition extract_curly_function ::
  "nat \<Rightarrow> int \<Rightarrow> string \<Rightarrow> string list \<Rightarrow> int \<times> string \<times> string" where
  \<comment> \<open>\<open>for j in range(start + 1, len(lines))\<close>, and the \<open>return\<close> after the loop.\<close>
  "extract_curly_function start initial_curly_balance header lines =
     curly_loop (start + 1) initial_curly_balance start header lines"

subsection \<open>Indentation block\<close>

definition get_ident :: "string \<Rightarrow> nat" where
  "get_ident line =
     (case find (\<lambda>i. line ! i \<noteq> CHR '' '') [0..<length line] of
        Some i \<Rightarrow> i
      | None \<Rightarrow> 0)"

function python_loop :: "nat \<Rightarrow> nat \<Rightarrow> string list \<Rightarrow> nat" where
  "python_loop j ident lines =
     (if j + 1 < length lines \<and> get_ident (lines ! (j + 1)) \<ge> ident + 4
      then python_loop (j + 1) ident lines
      else j)"
  by pat_completeness auto
termination
  by (relation "measure (\<lambda>(j, ident, lines). length lines - j)") auto

declare python_loop.simps [simp del]

definition extract_python_function ::
  "nat \<Rightarrow> string \<Rightarrow> string \<Rightarrow> string list \<Rightarrow> int \<times> string \<times> string" where
  "extract_python_function start header line lines =
     (let ident = get_ident line;
          j = python_loop start ident lines
      in (int j,
          header @ concat (py_slice lines (int start + 1) (int j + 1)),
          concat (py_slice lines (int start + 1) (int j + 1))))"

subsection \<open>Bare one-liner\<close>

definition extract_clean_oneliner :: "nat \<Rightarrow> string \<Rightarrow> string \<Rightarrow> int \<times> string \<times> string" where
  "extract_clean_oneliner start header line =
     (int start, line, py_slice_from line (str_find line (CHR ''='') + 1))"

section \<open>Function locator\<close>

text \<open>
  The lexical analysis is outside the repository. A lexer is any function from a line to
  its tokens; only the token kind \<open>Token.Name.Function\<close> is told apart from the others.
\<close>

datatype token = Name_Function | Other_Token string

type_synonym lexer = "string \<Rightarrow> (token \<times> string) list"

type_synonym methods = "(string \<times> string) list"

definition handle_function_token ::
  "nat \<Rightarrow> string \<Rightarrow> string list \<Rightarrow> int \<Rightarrow> (int \<times> string \<times> string) \<times> int" where
  \<comment> \<open>The \<open>if\<close>/\<open>elif\<close>/\<open>else\<close> chain under a function-name token on line \<open>i\<close>: the
      new \<open>(i, body, clean_body)\<close> and the new \<open>missed\<close>.\<close>
  "handle_function_token i line lines missed =
     (let header = line in
      if CHR ''{'' \<in> set line then
        (let curly_balance = get_balance line curly in
         if curly_balance = 0 then (extract_curly_oneliner i header line, missed)
         else (extract_curly_function i curly_balance header lines, missed))
      else if endswith (strip line) '':'' then
        (extract_python_function i header line lines, missed)
      else if \<not> endswith (strip line) '';'' \<and> \<not> endswith (strip line) ''...'' \<and>
              get_balance line parens = 0 then
        (extract_clean_oneliner i header line, missed)
      else ((int i, [], []), missed + 1))"

definition loop_body ::
  "lexer \<Rightarrow> string list \<Rightarrow> nat \<times> methods \<times> int \<Rightarrow> nat \<times> methods \<times> int" where
  \<comment> \<open>One round of \<open>while i < len(lines)\<close>, on \<open>(i, methods, missed)\<close>. The extractor's
      cursor is never below \<open>i\<close>, so \<open>nat\<close> loses nothing.\<close>
  "loop_body lx lines st =
     (case st of (i, methods, missed) \<Rightarrow>
        (let line = lines ! i in
         case find (\<lambda>(tok, s). tok = Name_Function) (lx line) of
           None \<Rightarrow> (i + 1, methods, missed)
         | Some (tok, s) \<Rightarrow>
             (case handle_function_token i line lines missed of
                ((i', body, clean_body), missed') \<Rightarrow>
                  (nat (i' + 1),
                   if strip clean_body \<noteq> [] then methods @ [(s, body)] else methods,
                   missed'))))"

partial_function (option) scan ::
  "lexer \<Rightarrow> string list \<Rightarrow> nat \<times> methods \<times> int \<Rightarrow> (methods \<times> int) option" where
  "scan lx lines st =
     (if fst st < length lines then scan lx lines (loop_body lx lines st)
      else Some (snd st))"

declare scan.simps [code]

datatype py_error = UnicodeDecodeError | ClassNotFound | Other_Error

type_synonym filename = string

definition except_clause :: "py_error \<Rightarrow> py_error + methods \<times> int" where
  \<comment> \<open>\<open>except (UnicodeDecodeError, ClassNotFound): return [], 0\<close>; anything else is raised
      to the caller.\<close>
  "except_clause e =
     (if e = UnicodeDecodeError \<or> e = ClassNotFound then Inr ([], 0) else Inl e)"

definition process_filename ::
  "(filename \<Rightarrow> py_error + lexer) \<Rightarrow> (filename \<Rightarrow> py_error + string list) \<Rightarrow> filename \<Rightarrow>
     (py_error + methods \<times> int) option" where
  \<comment> \<open>\<open>get_lexer_for_filename\<close> and the reading of the file (\<open>open\<close>, \<open>readlines\<close>) are
      parameters; each returns its value or the exception it raises. \<open>None\<close> is a scan
      that does not return.\<close>
  "process_filename get_lexer_for_filename readlines fname =
     (case get_lexer_for_filename fname of
        Inl e \<Rightarrow> Some (except_clause e)
      | Inr lx \<Rightarrow>
          (case readlines fname of
             Inl e \<Rightarrow> Some (except_clause e)
           | Inr lines \<Rightarrow> map_option Inr (scan lx lines (0, [], 0))))"

section \<open>Notions of the specification\<close>

definition running_balance :: "int \<Rightarrow> nat \<Rightarrow> string list \<Rightarrow> nat \<Rightarrow> int" where
  \<comment> \<open>The header's imbalance plus the net curly balance of each line after the header,
      up to line \<open>j\<close> inclusive.\<close>
  "running_balance init start lines j =
     init + sum_list (map (\<lambda>k. get_balance (lines ! k) curly) [Suc start..<Suc j])"

definition lines_through :: "string list \<Rightarrow> nat \<Rightarrow> nat \<Rightarrow> string list" where
  \<comment> \<open>Lines \<open>start + 1\<close> through \<open>j\<close> inclusive.\<close>
  "lines_through lines start j = map (\<lambda>k. lines ! k) [Suc start..<Suc j]"

definition first_index :: "char \<Rightarrow> string \<Rightarrow> nat" where
  \<comment> \<open>The index of the first \<open>c\<close> of a line that has one.\<close>
  "first_index c s = length (takeWhile (\<lambda>x. x \<noteq> c) s)"

definition last_index :: "char \<Rightarrow> string \<Rightarrow> nat" where
  \<comment> \<open>The index of the last \<open>c\<close> of a line that has one.\<close>
  "last_index c s = length s - 1 - length (takeWhile (\<lambda>x. x \<noteq> c) (rev s))"

datatype extractor = Curly_Oneliner | Curly_Multiline | Indentation_Block | Bare_Oneliner

definition spec_select_extractor :: "string \<Rightarrow> extractor option" where
  \<comment> \<open>The selection as the specification words it, tests (a) to (d) in order; \<open>None\<close> is
      a miss.\<close>
  "spec_select_extractor line =
     (if CHR ''{'' \<in> set line then
        (if get_balance line curly = 0 then Some Curly_Oneliner else Some Curly_Multiline)
      else if endswith (strip line) '':'' then Some Indentation_Block
      else if \<not> (endswith (strip line) '';'' \<or> endswith (strip line) ''...'') \<and>
              get_balance line parens = 0 then Some Bare_Oneliner
      else None)"

fun run_extractor :: "extractor \<Rightarrow> nat \<Rightarrow> string \<Rightarrow> string list \<Rightarrow> int \<times> string \<times> string" where
  \<comment> \<open>Each extractor on the header line \<open>line\<close> at cursor \<open>i\<close>, with the arguments the
      locator passes.\<close>
  "run_extractor Curly_Oneliner i line lines = extract_curly_oneliner i line line"
| "run_extractor Curly_Multiline i line lines =
     extract_curly_function i (get_balance line curly) line lines"
| "run_extractor Indentation_Block i line lines = extract_python_function i line line lines"
| "run_extractor Bare_Oneliner i line lines = extract_clean_oneliner i line line"

section \<open>Slices and balances\<close>

lemma clamp_index_int [simp]: "clamp_index n (int k) = min k n"
  by (simp add: clamp_index_def)

lemma clamp_index_0 [simp]: "clamp_index n 0 = 0"
  by (simp add: clamp_index_def)

lemma py_slice_nat: "py_slice xs (int a) (int b) = take (b - a) (drop a xs)"
  by (cases "a \<le> length xs") (auto simp: py_slice_def Let_def min_def)

lemma py_slice_lines:
  assumes "j < length lines"
  shows "py_slice lines (int start + 1) (int j + 1) = lines_through lines start j"
proof -
  have "py_slice lines (int start + 1) (int j + 1) = take (j - start) (drop (Suc start) lines)"
    using py_slice_nat [of lines "Suc start" "Suc j"] by (simp add: add.commute)
  also have "\<dots> = lines_through lines start j"
    unfolding lines_through_def using assms
    by (intro map_upt_eqI [symmetric]) auto
  finally show ?thesis .
qed

lemma running_balance_start [simp]: "running_balance init start lines start = init"
  by (simp add: running_balance_def)

lemma running_balance_Suc:
  "start \<le> j \<Longrightarrow> running_balance init start lines (Suc j) =
     running_balance init start lines j + get_balance (lines ! Suc j) curly"
  by (simp add: running_balance_def)

lemma curly_loop_found:
  assumes "start < j" "j \<le> k" "k < length lines"
    and "running_balance init start lines k = 0"
    and "\<forall>m. j \<le> m \<and> m < k \<longrightarrow> running_balance init start lines m \<noteq> 0"
  shows "curly_loop j (running_balance init start lines (j - 1)) start header lines =
         (int k,
          header @ concat (lines_through lines start k),
          filter (\<lambda>c. c \<noteq> CHR ''}'') (concat (lines_through lines start k)))"
  using assms
proof (induction "k - j" arbitrary: j)
  case 0
  then have jk: "j = k" by simp
  obtain j' where j': "j = Suc j'" "start \<le> j'" using "0.prems"(1) by (cases j) auto
  have "running_balance init start lines (j - 1) + get_balance (lines ! j) curly = 0"
    using running_balance_Suc [of start j' init lines] j' "0.prems" jk by simp
  then show ?case
    using "0.prems" jk by (subst curly_loop.simps) (simp add: py_slice_lines)
next
  case (Suc d)
  then have lt: "j < k" by simp
  obtain j' where j': "j = Suc j'" "start \<le> j'" using Suc.prems(1) by (cases j) auto
  have step: "running_balance init start lines (j - 1) + get_balance (lines ! j) curly =
        running_balance init start lines j"
    using running_balance_Suc [of start j' init lines] j' by simp
  have nz: "running_balance init start lines j \<noteq> 0" using Suc.prems(5) lt by simp
  have "curly_loop (Suc j) (running_balance init start lines (Suc j - 1)) start header lines =
         (int k,
          header @ concat (lines_through lines start k),
          filter (\<lambda>c. c \<noteq> CHR ''}'') (concat (lines_through lines start k)))"
    using Suc.hyps(2) Suc.prems by (intro Suc.hyps(1)) auto
  then show ?case
    using Suc.prems lt step nz by (subst curly_loop.simps) simp
qed

lemma curly_loop_none:
  assumes "start < j"
    and "\<forall>m. j \<le> m \<and> m < length lines \<longrightarrow> running_balance init start lines m \<noteq> 0"
  shows "curly_loop j (running_balance init start lines (j - 1)) start header lines =
         (int (length lines) - 1, [], [])"
  using assms
proof (induction "length lines - j" arbitrary: j)
  case 0
  then show ?case by (subst curly_loop.simps) simp
next
  case (Suc d)
  then have lt: "j < length lines" by simp
  obtain j' where j': "j = Suc j'" "start \<le> j'" using Suc.prems(1) by (cases j) auto
  have step: "running_balance init start lines (j - 1) + get_balance (lines ! j) curly =
        running_balance init start lines j"
    using running_balance_Suc [of start j' init lines] j' by simp
  have nz: "running_balance init start lines j \<noteq> 0" using Suc.prems(2) lt by simp
  have "curly_loop (Suc j) (running_balance init start lines (Suc j - 1)) start header lines =
         (int (length lines) - 1, [], [])"
    using Suc.hyps(2) Suc.prems by (intro Suc.hyps(1)) auto
  then show ?case
    using lt step nz by (subst curly_loop.simps) simp
qed

lemma extract_curly_function_found:
  assumes "start < j" "j < length lines"
    and "running_balance init start lines j = 0"
    and "\<forall>m. start < m \<and> m < j \<longrightarrow> running_balance init start lines m \<noteq> 0"
  shows "extract_curly_function start init header lines =
         (int j,
          header @ concat (lines_through lines start j),
          filter (\<lambda>c. c \<noteq> CHR ''}'') (concat (lines_through lines start j)))"
  using curly_loop_found [of start "Suc start" j lines init header] assms
  by (simp add: extract_curly_function_def)

lemma extract_curly_function_none:
  assumes "\<forall>m. start < m \<and> m < length lines \<longrightarrow> running_balance init start lines m \<noteq> 0"
  shows "extract_curly_function start init header lines = (int (length lines) - 1, [], [])"
  using curly_loop_none [of start "Suc start" lines init header] assms
  by (simp add: extract_curly_function_def)

section \<open>The curly multi-line extractor\<close>

text \<open>
  C1. Let the running balance (the initial imbalance plus the net curly balance of every
  line after the header) reach 0 for the first time at line \<open>j\<close>. Then the curly
  multi-line extractor returns the cursor \<open>j\<close>, as full text the header followed by
  the lines \<open>start + 1\<close> through \<open>j\<close>, and as clean body those lines joined with every
  closing brace removed; every other character, an opening brace too, stays.
\<close>

theorem curly_function_closing_line:
  assumes "start < j" and "j < length lines"
    and "running_balance init start lines j = 0"
    and "\<forall>m. start < m \<and> m < j \<longrightarrow> running_balance init start lines m \<noteq> 0"
  shows "extract_curly_function start init header lines =
         (int j,
          header @ concat (lines_through lines start j),
          filter (\<lambda>c. c \<noteq> CHR ''}'') (concat (lines_through lines start j)))"
  using assms by (rule extract_curly_function_found)

theorem curly_function_closing_line_witness:
  "extract_curly_function 0 1 ''void f() {\<newline>''
     [''void f() {\<newline>'', ''  if (x) { y();\<newline>'', ''  }\<newline>'', ''}\<newline>'', ''int z;\<newline>''] =
   (3, ''void f() {\<newline>  if (x) { y();\<newline>  }\<newline>}\<newline>'', ''  if (x) { y();\<newline>  \<newline>\<newline>'')"
proof -
  let ?lines = "[''void f() {\<newline>'', ''  if (x) { y();\<newline>'', ''  }\<newline>'', ''}\<newline>'', ''int z;\<newline>'']"
  have a: "(0::nat) < 3" and b: "3 < length ?lines" by simp_all
  have c: "running_balance 1 0 ?lines 3 = 0"
    by code_simp
  have d1: "running_balance 1 0 ?lines 1 \<noteq> 0" by code_simp
  have d2: "running_balance 1 0 ?lines 2 \<noteq> 0" by code_simp
  have d: "\<forall>m. 0 < m \<and> m < 3 \<longrightarrow> running_balance 1 0 ?lines m \<noteq> 0"
  proof (intro allI impI)
    fix m :: nat
    assume "0 < m \<and> m < 3"
    then have "m = 1 \<or> m = 2" by auto
    then show "running_balance 1 0 ?lines m \<noteq> 0"
      using d1 d2 by auto
  qed
  have e: "lines_through ?lines 0 3 = [''  if (x) { y();\<newline>'', ''  }\<newline>'', ''}\<newline>'']"
    by code_simp
  show ?thesis
    using curly_function_closing_line [OF a b c d, of "''void f() {\<newline>''"]
    unfolding e by simp
qed


lemma strip_Nil [simp]: "strip [] = []"
  by (simp add: strip_def)

lemma loop_body_no_token:
  assumes "find (\<lambda>(tok, s). tok = Name_Function) (lx (lines ! i)) = None"
  shows "loop_body lx lines (i, methods, missed) = (i + 1, methods, missed)"
  using assms by (simp add: loop_body_def)

text \<open>
  C3. When the running balance is never 0 on a line after the header, the curly multi-line
  extractor returns the last line index as cursor and the empty string both as full text
  and as clean body. In the locator, that round leaves the records and the miss counter
  as they were, and moves the scan to the end of the file.
\<close>

theorem curly_function_unterminated:
  assumes "i < length lines"
    and "find (\<lambda>(tok, s). tok = Name_Function) (lx (lines ! i)) = Some (tok, name)"
    and "CHR ''{'' \<in> set (lines ! i)"
    and "get_balance (lines ! i) curly \<noteq> 0"
    and "\<forall>m. i < m \<and> m < length lines \<longrightarrow>
           running_balance (get_balance (lines ! i) curly) i lines m \<noteq> 0"
  shows "extract_curly_function i (get_balance (lines ! i) curly) (lines ! i) lines =
           (int (length lines) - 1, [], []) \<and>
         loop_body lx lines (i, methods, missed) = (length lines, methods, missed)"
proof -
  have ex: "extract_curly_function i (get_balance (lines ! i) curly) (lines ! i) lines =
           (int (length lines) - 1, [], [])"
    using assms(5) by (rule extract_curly_function_none)
  have "handle_function_token i (lines ! i) lines missed =
          ((int (length lines) - 1, [], []), missed)"
    using assms(3,4) ex by (simp add: handle_function_token_def)
  then have "loop_body lx lines (i, methods, missed) = (length lines, methods, missed)"
    using assms(1,2) by (simp add: loop_body_def)
  with ex show ?thesis by simp
qed

theorem curly_function_unterminated_witness:
  "extract_curly_function 1 1 ''void f() {\<newline>'' [''int a;\<newline>'', ''void f() {\<newline>'', ''  g();\<newline>''] =
     (2, [], []) \<and>
   loop_body (\<lambda>l. [(Other_Token ''Keyword'', ''void''), (Name_Function, ''f'')])
     [''int a;\<newline>'', ''void f() {\<newline>'', ''  g();\<newline>''] (1, [(''e'', ''e() {}'')], 5) =
     (3, [(''e'', ''e() {}'')], 5)"
proof -
  let ?lines = "[''int a;\<newline>'', ''void f() {\<newline>'', ''  g();\<newline>'']"
  let ?lx = "\<lambda>l::string. [(Other_Token ''Keyword'', ''void''), (Name_Function, ''f'')]"
  have a: "1 < length ?lines" by simp
  have b: "find (\<lambda>(tok, s). tok = Name_Function) (?lx (?lines ! 1)) = Some (Name_Function, ''f'')"
    by simp
  have c: "CHR ''{'' \<in> set (?lines ! 1)" by simp
  have d: "get_balance (?lines ! 1) curly \<noteq> 0" by code_simp
  have d2: "running_balance (get_balance (?lines ! 1) curly) 1 ?lines 2 \<noteq> 0" by code_simp
  have e: "\<forall>m. 1 < m \<and> m < length ?lines \<longrightarrow>
           running_balance (get_balance (?lines ! 1) curly) 1 ?lines m \<noteq> 0"
  proof (intro allI impI)
    fix m :: nat
    assume "1 < m \<and> m < length ?lines"
    then have "m = 2" by auto
    then show "running_balance (get_balance (?lines ! 1) curly) 1 ?lines m \<noteq> 0"
      using d2 by simp
  qed
  have f: "get_balance (?lines ! 1) curly = 1" by code_simp
  show ?thesis
    using curly_function_unterminated [OF a b c d e, of "[(''e'', ''e() {}'')]" 5]
    unfolding f by simp
qed

section \<open>The indentation-block extractor\<close>

lemma length_takeWhile_less_ex:
  "\<exists>x\<in>set xs. \<not> P x \<Longrightarrow> length (takeWhile P xs) < length xs"
  by (induction xs) auto

lemma find_upt_takeWhile:
  "find (\<lambda>i. P (xs ! i)) [0..<length xs] =
     (if \<exists>x\<in>set xs. P x then Some (length (takeWhile (\<lambda>x. \<not> P x) xs)) else None)"
proof (cases "\<exists>x\<in>set xs. P x")
  case False
  then show ?thesis by (auto simp: find_None_iff)
next
  case True
  let ?n = "length (takeWhile (\<lambda>x. \<not> P x) xs)"
  have n: "?n < length xs"
    using True by (intro length_takeWhile_less_ex) simp
  have p: "P (xs ! ?n)"
    using nth_length_takeWhile [OF n] by simp
  have q: "\<forall>j<?n. \<not> P (xs ! j)"
    by (metis nth_mem set_takeWhileD takeWhile_nth)
  have "find (\<lambda>i. P (xs ! i)) [0..<length xs] = Some ?n"
    unfolding find_Some_iff using n p q by (intro exI [of _ ?n]) simp
  with True show ?thesis by simp
qed

lemma get_ident_eq:
  "get_ident line =
     (if \<exists>c\<in>set line. c \<noteq> CHR '' '' then length (takeWhile (\<lambda>c. c = CHR '' '') line) else 0)"
  unfolding get_ident_def find_upt_takeWhile [of "\<lambda>c. c \<noteq> CHR '' ''" line] by simp

lemma python_loop_eq:
  "python_loop j ident lines =
     j + length (takeWhile (\<lambda>l. ident + 4 \<le> get_ident l) (drop (Suc j) lines))"
proof (induction j ident lines rule: python_loop.induct)
  case (1 j ident lines)
  show ?case
  proof (cases "j + 1 < length lines")
    case False
    then show ?thesis by (subst python_loop.simps) simp
  next
    case True
    then have d: "drop (Suc j) lines = lines ! (j + 1) # drop (Suc (j + 1)) lines"
      by (simp add: Cons_nth_drop_Suc)
    show ?thesis
    proof (cases "ident + 4 \<le> get_ident (lines ! (j + 1))")
      case q: True
      with True "1.IH" have "python_loop (j + 1) ident lines =
        j + 1 + length (takeWhile (\<lambda>l. ident + 4 \<le> get_ident l) (drop (Suc (j + 1)) lines))"
        by simp
      with True q show ?thesis
        by (subst python_loop.simps, subst d) simp
    next
      case q: False
      with True show ?thesis
        by (subst python_loop.simps, subst d) simp
    qed
  qed
qed


lemma extract_python_function_eq:
  "extract_python_function start header line lines =
     (let block = takeWhile (\<lambda>l. get_ident line + 4 \<le> get_ident l) (drop (Suc start) lines)
      in (int (start + length block), header @ concat block, concat block))"
proof -
  let ?P = "\<lambda>l. get_ident line + 4 \<le> get_ident l"
  let ?block = "takeWhile ?P (drop (Suc start) lines)"
  let ?j = "start + length ?block"
  have j: "python_loop start (get_ident line) lines = ?j"
    by (rule python_loop_eq)
  have "py_slice lines (int start + 1) (int ?j + 1) = take (length ?block) (drop (Suc start) lines)"
    using py_slice_nat [of lines "Suc start" "Suc ?j"] by (simp add: add.commute)
  also have "\<dots> = ?block"
    by (rule takeWhile_eq_take [symmetric])
  finally show ?thesis
    using j by (simp add: extract_python_function_def Let_def)
qed

lemma takeWhile_stops:
  assumes "k < length xs" and "\<not> P (xs ! k)"
  shows "length (takeWhile P xs) \<le> k"
proof (rule ccontr)
  assume "\<not> length (takeWhile P xs) \<le> k"
  then have lt: "k < length (takeWhile P xs)" by simp
  then have "takeWhile P xs ! k \<in> set (takeWhile P xs)" by simp
  then have "P (takeWhile P xs ! k)" by (auto dest: set_takeWhileD)
  with takeWhile_nth [OF lt] assms(2) show False by simp
qed

lemma get_ident_blank: "get_ident [] = 0" "get_ident ''\<newline>'' = 0"
  by (simp_all add: get_ident_eq)

lemma get_ident_spaces_newline:
  "get_ident (replicate n (CHR '' '') @ ''\<newline>'') = n"
proof -
  have "takeWhile (\<lambda>c. c = CHR '' '') (replicate n (CHR '' '') @ ''\<newline>'') =
        replicate n (CHR '' '') @ takeWhile (\<lambda>c. c = CHR '' '') ''\<newline>''"
    by (rule takeWhile_append2) simp
  then show ?thesis by (simp add: get_ident_eq)
qed

lemma python_cursor_stops:
  assumes "start < k" and "k < length lines"
    and "get_ident (lines ! k) < get_ident line + 4"
  shows "fst (extract_python_function start header line lines) < int k"
proof -
  let ?P = "\<lambda>l. get_ident line + 4 \<le> get_ident l"
  let ?block = "takeWhile ?P (drop (Suc start) lines)"
  have "drop (Suc start) lines ! (k - Suc start) = lines ! k"
    using assms by simp
  then have "\<not> ?P (drop (Suc start) lines ! (k - Suc start))"
    using assms(3) by simp
  moreover have "k - Suc start < length (drop (Suc start) lines)"
    using assms by simp
  ultimately have "length ?block \<le> k - Suc start"
    by (intro takeWhile_stops)
  then have "start + length ?block < k" using assms by simp
  then show ?thesis
    using extract_python_function_eq [of start header line lines] by (simp add: Let_def)
qed

text \<open>
  C4. The indentation-block extractor consumes the longest run of lines directly after
  the header whose indentation is at least the header's plus 4. It returns the cursor at
  the last consumed line (at the header when no line qualifies), the header followed by
  the consumed lines as full text, and the consumed lines alone as clean body. The
  indentation of a line is the index of its first character other than a space, and 0
  when it has none. An empty line, or a line that is a lone newline, has indentation 0,
  and the cursor stays before it. A line of \<open>n\<close> spaces and a newline has indentation
  \<open>n\<close>; like any other line, it stops the cursor exactly when its indentation is below
  the header's plus 4.
\<close>

theorem python_function_block:
  "(let block = takeWhile (\<lambda>l. get_ident line + 4 \<le> get_ident l) (drop (Suc start) lines)
      in extract_python_function start header line lines =
           (int (start + length block), header @ concat block, concat block)) \<and>
     (\<forall>l. get_ident l =
        (if \<exists>c\<in>set l. c \<noteq> CHR '' '' then length (takeWhile (\<lambda>c. c = CHR '' '') l) else 0)) \<and>
     (\<forall>k. start < k \<and> k < length lines \<and> (lines ! k = [] \<or> lines ! k = ''\<newline>'') \<longrightarrow>
        get_ident (lines ! k) = 0 \<and>
        fst (extract_python_function start header line lines) < int k) \<and>
     (\<forall>n. get_ident (replicate n (CHR '' '') @ ''\<newline>'') = n) \<and>
     (\<forall>k. start < k \<and> k < length lines \<and> get_ident (lines ! k) < get_ident line + 4 \<longrightarrow>
        fst (extract_python_function start header line lines) < int k)"
proof -
  let ?P = "\<lambda>l. get_ident line + 4 \<le> get_ident l"
  let ?block = "takeWhile ?P (drop (Suc start) lines)"
  have eq: "extract_python_function start header line lines =
           (int (start + length ?block), header @ concat ?block, concat ?block)"
    using extract_python_function_eq [of start header line lines] by (simp add: Let_def)
  have stop: "fst (extract_python_function start header line lines) < int k"
    if "start < k \<and> k < length lines \<and> get_ident (lines ! k) < get_ident line + 4" for k
    using that python_cursor_stops [of start k lines line header] by simp
  have blank: "get_ident (lines ! k) = 0 \<and>
        fst (extract_python_function start header line lines) < int k"
    if k: "start < k \<and> k < length lines \<and> (lines ! k = [] \<or> lines ! k = ''\<newline>'')" for k
  proof -
    have z: "get_ident (lines ! k) = 0"
      using k get_ident_blank by auto
    with k stop [of k] show ?thesis by simp
  qed
  have a: "\<forall>k. start < k \<and> k < length lines \<and> (lines ! k = [] \<or> lines ! k = ''\<newline>'') \<longrightarrow>
        get_ident (lines ! k) = 0 \<and>
        fst (extract_python_function start header line lines) < int k"
    using blank by blast
  have b: "\<forall>k. start < k \<and> k < length lines \<and> get_ident (lines ! k) < get_ident line + 4 \<longrightarrow>
        fst (extract_python_function start header line lines) < int k"
    using stop by blast
  have c: "\<forall>l. get_ident l =
        (if \<exists>c\<in>set l. c \<noteq> CHR '' '' then length (takeWhile (\<lambda>c. c = CHR '' '') l) else 0)"
    using get_ident_eq by blast
  have d: "\<forall>n. get_ident (replicate n (CHR '' '') @ ''\<newline>'') = n"
    using get_ident_spaces_newline by blast
  have e: "(let block = ?block
      in extract_python_function start header line lines =
           (int (start + length block), header @ concat block, concat block))"
    using eq by (simp add: Let_def)
  from e c a d b show ?thesis by (intro conjI)
qed

theorem python_function_block_witness:
  "extract_python_function 1 ''def f(x):\<newline>'' ''def f(x):\<newline>''
     [''import os\<newline>'', ''def f(x):\<newline>'', ''    y = x\<newline>'', ''        z = y\<newline>'', ''\<newline>'', ''    return z\<newline>''] =
     (3, ''def f(x):\<newline>    y = x\<newline>        z = y\<newline>'', ''    y = x\<newline>        z = y\<newline>'') \<and>
   get_ident ''\<newline>'' = 0 \<and>
   fst (extract_python_function 1 ''def f(x):\<newline>'' ''def f(x):\<newline>''
     [''import os\<newline>'', ''def f(x):\<newline>'', ''    y = x\<newline>'', ''        z = y\<newline>'', ''\<newline>'', ''    return z\<newline>'']) < 4 \<and>
   fst (extract_python_function 0 ''if a:\<newline>'' ''if a:\<newline>''
     [''if a:\<newline>'', ''    b\<newline>'', ''  \<newline>'', ''    c\<newline>'']) < 2"
proof -
  let ?lines = "[''import os\<newline>'', ''def f(x):\<newline>'', ''    y = x\<newline>'', ''        z = y\<newline>'', ''\<newline>'', ''    return z\<newline>'']"
  let ?h = "''def f(x):\<newline>''"
  note block = python_function_block [of ?h 1 ?lines ?h]
  have b: "takeWhile (\<lambda>l. get_ident ?h + 4 \<le> get_ident l) (drop (Suc 1) ?lines) =
     [''    y = x\<newline>'', ''        z = y\<newline>'']"
    by code_simp
  have first: "extract_python_function 1 ?h ?h ?lines =
     (3, ''def f(x):\<newline>    y = x\<newline>        z = y\<newline>'', ''    y = x\<newline>        z = y\<newline>'')"
    using block unfolding b Let_def by simp
  have "(1::nat) < 4 \<and> 4 < length ?lines \<and> (?lines ! 4 = [] \<or> ?lines ! 4 = ''\<newline>'')"
    by simp
  with block have second: "get_ident (?lines ! 4) = 0 \<and> fst (extract_python_function 1 ?h ?h ?lines) < int 4"
    by blast
  let ?l2 = "[''if a:\<newline>'', ''    b\<newline>'', ''  \<newline>'', ''    c\<newline>'']"
  let ?h2 = "''if a:\<newline>''"
  have g: "get_ident (?l2 ! 2) < get_ident ?h2 + 4" by code_simp
  then have "(0::nat) < 2 \<and> 2 < length ?l2 \<and> get_ident (?l2 ! 2) < get_ident ?h2 + 4"
    by simp
  with python_function_block [of ?h2 0 ?l2 ?h2]
  have third: "fst (extract_python_function 0 ?h2 ?h2 ?l2) < int 2"
    by blast
  from first second third show ?thesis by simp
qed

text \<open>
  C4, for a whitespace-only line: a line of four spaces and a newline strips
  to nothing, yet its computed indentation is 4, not 0, since the newline is its first
  character other than a space. Under a header of indentation 0 the extractor consumes
  it and the line after it: the cursor ends at 3, past the whitespace-only line at
  index 2.
\<close>

theorem python_function_spaces_line_counterexample:
  "strip ''    \<newline>'' = [] \<and>
   get_ident ''    \<newline>'' = 4 \<and>
   extract_python_function 0 ''def f():\<newline>'' ''def f():\<newline>''
     [''def f():\<newline>'', ''    a = 1\<newline>'', ''    \<newline>'', ''    return a\<newline>''] =
     (3, ''def f():\<newline>    a = 1\<newline>    \<newline>    return a\<newline>'',
      ''    a = 1\<newline>    \<newline>    return a\<newline>'')"
  by code_simp

section \<open>The curly one-liner extractor\<close>

lemma last_index_Cons:
  "last_index c (x # xs) = (if c \<in> set xs then Suc (last_index c xs) else 0)"
proof (cases "c \<in> set xs")
  case True
  then have "\<exists>y\<in>set (rev xs). \<not> y \<noteq> c" by simp
  then have "length (takeWhile (\<lambda>y. y \<noteq> c) (rev xs)) < length (rev xs)"
    by (rule length_takeWhile_less_ex)
  moreover have "takeWhile (\<lambda>y. y \<noteq> c) (rev xs @ [x]) = takeWhile (\<lambda>y. y \<noteq> c) (rev xs)"
    using True by (intro takeWhile_append1 [of c]) auto
  ultimately show ?thesis using True by (simp add: last_index_def)
next
  case False
  then have "takeWhile (\<lambda>y. y \<noteq> c) (rev xs @ [x]) = rev xs @ takeWhile (\<lambda>y. y \<noteq> c) [x]"
    by (intro takeWhile_append2) auto
  then show ?thesis using False by (simp add: last_index_def)
qed

lemma oneliner_step_pair:
  "oneliner_step (i, c) (sc, ec) =
     (if c = CHR ''{'' \<and> sc = - 1 then int i + 1 else sc, if c = CHR ''}'' then int i else ec)"
  by (simp add: oneliner_step_def)

lemma fold_oneliner_step:
  "fold oneliner_step (enumerate n xs) (sc, ec) =
     (if sc = - 1 \<and> CHR ''{'' \<in> set xs then int (n + first_index (CHR ''{'') xs) + 1 else sc,
      if CHR ''}'' \<in> set xs then int (n + last_index (CHR ''}'') xs) else ec)"
proof (induction xs arbitrary: n sc ec)
  case Nil
  then show ?case by simp
next
  case (Cons x xs)
  show ?case
    by (simp add: Cons.IH oneliner_step_pair last_index_Cons first_index_def)
qed

lemma get_balance_count:
  "a \<noteq> b \<Longrightarrow> get_balance line (a, b) = int (count_list line a) - int (count_list line b)"
  by (induction line) (auto simp: get_balance_def)

lemma balanced_has_close:
  assumes "CHR ''{'' \<in> set line" and "get_balance line curly = 0"
  shows "CHR ''}'' \<in> set line"
proof (rule ccontr)
  assume "CHR ''}'' \<notin> set line"
  then have "count_list line (CHR ''}'') = 0" by (simp add: count_list_0_iff)
  moreover have "count_list line (CHR ''{'') \<noteq> 0" using assms(1) by (simp add: count_list_0_iff)
  ultimately show False using assms(2) by (simp add: get_balance_count)
qed

lemma first_index_less: "c \<in> set s \<Longrightarrow> first_index c s < length s"
  unfolding first_index_def by (intro length_takeWhile_less_ex) simp

lemma first_index_nth:
  assumes "c \<in> set s"
  shows "s ! first_index c s = c" and "\<forall>i<first_index c s. s ! i \<noteq> c"
proof -
  let ?P = "\<lambda>x. x \<noteq> c"
  have "length (takeWhile ?P s) < length s"
    using first_index_less [OF assms] by (simp add: first_index_def)
  then have "\<not> ?P (s ! length (takeWhile ?P s))"
    by (rule nth_length_takeWhile)
  then show "s ! first_index c s = c" by (simp add: first_index_def)
  show "\<forall>i<first_index c s. s ! i \<noteq> c"
  proof (intro allI impI)
    fix i
    assume "i < first_index c s"
    then have i: "i < length (takeWhile ?P s)" by (simp add: first_index_def)
    then have "takeWhile ?P s ! i \<in> set (takeWhile ?P s)" by (rule nth_mem)
    then have "?P (takeWhile ?P s ! i)" by (auto dest: set_takeWhileD)
    then show "s ! i \<noteq> c" using takeWhile_nth [OF i] by simp
  qed
qed

lemma last_index_nth:
  assumes "c \<in> set s"
  shows "s ! last_index c s = c"
    and "\<forall>i. last_index c s < i \<and> i < length s \<longrightarrow> s ! i \<noteq> c"
proof -
  let ?n = "first_index c (rev s)"
  have c: "c \<in> set (rev s)" using assms by simp
  have n: "?n < length s" using first_index_less [OF c] by simp
  have li: "last_index c s = length s - Suc ?n"
    by (simp add: last_index_def first_index_def)
  have "rev s ! ?n = c" using c by (rule first_index_nth)
  moreover have "rev s ! ?n = s ! (length s - Suc ?n)"
    using n by (rule rev_nth)
  ultimately show "s ! last_index c s = c"
    by (simp add: li)
  show "\<forall>i. last_index c s < i \<and> i < length s \<longrightarrow> s ! i \<noteq> c"
  proof (intro allI impI)
    fix i
    assume i: "last_index c s < i \<and> i < length s"
    define k where "k = length s - Suc i"
    have i': "length s - Suc ?n < i" "i < length s"
      using i li by simp_all
    have k: "k < ?n" "k < length s" "length s - Suc k = i"
      unfolding k_def using i' n by linarith+
    have "rev s ! k \<noteq> c"
      using first_index_nth(2) [OF c] k(1) by simp
    moreover have "rev s ! k = s ! (length s - Suc k)"
      using k(2) by (rule rev_nth)
    ultimately show "s ! i \<noteq> c" using k(3) by simp
  qed
qed

lemma extract_curly_oneliner_eq:
  assumes "CHR ''{'' \<in> set line" and "get_balance line curly = 0"
  shows "extract_curly_oneliner start header line =
           (int start, header,
            take (last_index (CHR ''}'') line - (first_index (CHR ''{'') line + 1))
              (drop (first_index (CHR ''{'') line + 1) line))"
proof -
  have cl: "CHR ''}'' \<in> set line" using assms by (rule balanced_has_close)
  let ?f = "first_index (CHR ''{'') line" and ?l = "last_index (CHR ''}'') line"
  have "fold oneliner_step (enumerate 0 line) (- 1, - 1) = (int ?f + 1, int ?l)"
    using assms(1) cl by (simp add: fold_oneliner_step)
  moreover have "py_slice line (int ?f + 1) (int ?l) = take (?l - (?f + 1)) (drop (?f + 1) line)"
    using py_slice_nat [of line "?f + 1" ?l] by (simp add: add.commute)
  ultimately show ?thesis
    by (simp add: extract_curly_oneliner_def)
qed

text \<open>
  C5. On a header line that contains an opening brace and has net curly balance 0, the
  curly one-liner extractor returns the cursor as it was, the line as full text, and as
  clean body the characters from the index after the first opening brace up to, not
  including, the index of the last closing brace. For \<open>int f() { return 1; }\<close> the
  clean body is \<open> return 1; \<close> with its two spaces.
\<close>

theorem curly_oneliner_body:
  assumes "CHR ''{'' \<in> set line" and "get_balance line curly = 0"
  shows "extract_curly_oneliner start line line =
           (int start, line,
            take (last_index (CHR ''}'') line - (first_index (CHR ''{'') line + 1))
              (drop (first_index (CHR ''{'') line + 1) line)) \<and>
         line ! first_index (CHR ''{'') line = CHR ''{'' \<and>
         (\<forall>k<first_index (CHR ''{'') line. line ! k \<noteq> CHR ''{'') \<and>
         line ! last_index (CHR ''}'') line = CHR ''}'' \<and>
         (\<forall>k. last_index (CHR ''}'') line < k \<and> k < length line \<longrightarrow> line ! k \<noteq> CHR ''}'') \<and>
         extract_curly_oneliner start ''int f() { return 1; }'' ''int f() { return 1; }'' =
           (int start, ''int f() { return 1; }'', '' return 1; '')"
proof -
  have cl: "CHR ''}'' \<in> set line" using assms by (rule balanced_has_close)
  let ?e = "''int f() { return 1; }''"
  have e: "CHR ''{'' \<in> set ?e" "get_balance ?e curly = 0"
    "first_index (CHR ''{'') ?e = 8" "last_index (CHR ''}'') ?e = 20"
    by code_simp+
  have "extract_curly_oneliner start ?e ?e = (int start, ?e, '' return 1; '')"
    unfolding extract_curly_oneliner_eq [OF e(1,2)] e(3,4) by simp
  then show ?thesis
    using extract_curly_oneliner_eq [OF assms] first_index_nth [OF assms(1)] last_index_nth [OF cl]
    by simp
qed

theorem curly_oneliner_body_witness:
  "extract_curly_oneliner 7 ''fun g() { h({}) }\<newline>'' ''fun g() { h({}) }\<newline>'' =
     (7, ''fun g() { h({}) }\<newline>'', '' h({}) '')"
proof -
  let ?e = "''fun g() { h({}) }\<newline>''"
  have e: "CHR ''{'' \<in> set ?e" "get_balance ?e curly = 0"
    by code_simp+
  have i: "first_index (CHR ''{'') ?e = 8" "last_index (CHR ''}'') ?e = 16"
    by code_simp+
  show ?thesis
    using curly_oneliner_body [OF e, of 7] unfolding i by simp
qed

section \<open>The bare one-liner extractor\<close>

text \<open>
  C6. The bare one-liner extractor returns the cursor as it was and the line as full
  text. Its clean body is what follows the first \<open>=\<close> of the line, and the whole line
  when the line has no \<open>=\<close>.
\<close>

theorem clean_oneliner_body:
  "extract_clean_oneliner start line line =
     (int start, line,
      if CHR ''='' \<in> set line then drop (first_index (CHR ''='') line + 1) line else line) \<and>
   (CHR ''='' \<in> set line \<longrightarrow>
      line ! first_index (CHR ''='') line = CHR ''='' \<and>
      (\<forall>k<first_index (CHR ''='') line. line ! k \<noteq> CHR ''=''))"
proof -
  have "clamp_index (length line) (int (first_index (CHR ''='') line) + 1) =
        min (first_index (CHR ''='') line + 1) (length line)"
    using clamp_index_int [of "length line" "first_index (CHR ''='') line + 1"]
    by (simp add: add.commute)
  then have "extract_clean_oneliner start line line =
     (int start, line,
      if CHR ''='' \<in> set line then drop (first_index (CHR ''='') line + 1) line else line)"
    by (auto simp: extract_clean_oneliner_def py_slice_from_def str_find_def first_index_def
        min_def)
  then show ?thesis
    using first_index_nth [of "CHR ''=''" line] by simp
qed

theorem clean_oneliner_body_witness:
  "extract_clean_oneliner 2 ''val x = compute()'' ''val x = compute()'' =
     (2, ''val x = compute()'', '' compute()'') \<and>
   ''val x = compute()'' ! 6 = CHR ''=''"
proof -
  let ?e = "''val x = compute()''"
  have e: "CHR ''='' \<in> set ?e" by simp
  have i: "first_index (CHR ''='') ?e = 6" by code_simp
  show ?thesis
    using clean_oneliner_body [of 2 ?e] e unfolding i by simp
qed


section \<open>The function locator\<close>

lemma handle_function_token_select:
  "handle_function_token i line lines missed =
     (case spec_select_extractor line of
        Some ex \<Rightarrow> (run_extractor ex i line lines, missed)
      | None \<Rightarrow> ((int i, [], []), missed + 1))"
  by (simp add: handle_function_token_def spec_select_extractor_def Let_def)

lemma loop_body_selected:
  assumes "find (\<lambda>(tok, s). tok = Name_Function) (lx (lines ! i)) = Some (tok, name)"
    and "spec_select_extractor (lines ! i) = Some ex"
    and "run_extractor ex i (lines ! i) lines = (c, body, clean_body)"
  shows "loop_body lx lines (i, methods, missed) =
         (nat (c + 1),
          if strip clean_body \<noteq> [] then methods @ [(name, body)] else methods,
          missed)"
  using assms by (simp add: loop_body_def handle_function_token_select)

lemma loop_body_missed:
  assumes "find (\<lambda>(tok, s). tok = Name_Function) (lx (lines ! i)) = Some (tok, name)"
    and "spec_select_extractor (lines ! i) = None"
  shows "loop_body lx lines (i, methods, missed) = (i + 1, methods, missed + 1)"
  using assms by (simp add: loop_body_def handle_function_token_select)

text \<open>
  C2. On a line with a function-name token the locator picks its extractor by testing in
  order: with an opening brace on the line, the curly one-liner when the line's net curly
  balance is 0 and the curly multi-line extractor otherwise; else, when the stripped line
  ends with a colon, the indentation-block extractor; else, when the stripped line ends
  neither with a semicolon nor with three dots and its net parenthesis balance is 0, the
  bare one-liner. The miss counter goes up by one exactly when none of the four applies,
  and that round adds no record.
\<close>

theorem locator_selects_extractor:
  assumes "find (\<lambda>(tok, s). tok = Name_Function) (lx (lines ! i)) = Some (tok, name)"
  shows "(CHR ''{'' \<in> set (lines ! i) \<and> get_balance (lines ! i) curly = 0 \<longrightarrow>
            handle_function_token i (lines ! i) lines missed =
              (extract_curly_oneliner i (lines ! i) (lines ! i), missed)) \<and>
         (CHR ''{'' \<in> set (lines ! i) \<and> get_balance (lines ! i) curly \<noteq> 0 \<longrightarrow>
            handle_function_token i (lines ! i) lines missed =
              (extract_curly_function i (get_balance (lines ! i) curly) (lines ! i) lines, missed)) \<and>
         (CHR ''{'' \<notin> set (lines ! i) \<and> endswith (strip (lines ! i)) '':'' \<longrightarrow>
            handle_function_token i (lines ! i) lines missed =
              (extract_python_function i (lines ! i) (lines ! i) lines, missed)) \<and>
         (CHR ''{'' \<notin> set (lines ! i) \<and> \<not> endswith (strip (lines ! i)) '':'' \<and>
          \<not> endswith (strip (lines ! i)) '';'' \<and> \<not> endswith (strip (lines ! i)) ''...'' \<and>
          get_balance (lines ! i) parens = 0 \<longrightarrow>
            handle_function_token i (lines ! i) lines missed =
              (extract_clean_oneliner i (lines ! i) (lines ! i), missed)) \<and>
         handle_function_token i (lines ! i) lines missed =
           (case spec_select_extractor (lines ! i) of
              Some ex \<Rightarrow> (run_extractor ex i (lines ! i) lines, missed)
            | None \<Rightarrow> ((int i, [], []), missed + 1)) \<and>
         snd (snd (loop_body lx lines (i, methods, missed))) =
           (if spec_select_extractor (lines ! i) = None then missed + 1 else missed) \<and>
         (spec_select_extractor (lines ! i) = None \<longrightarrow>
            loop_body lx lines (i, methods, missed) = (i + 1, methods, missed + 1))"
proof -
  have sel: "handle_function_token i (lines ! i) lines missed =
           (case spec_select_extractor (lines ! i) of
              Some ex \<Rightarrow> (run_extractor ex i (lines ! i) lines, missed)
            | None \<Rightarrow> ((int i, [], []), missed + 1))"
    by (rule handle_function_token_select)
  have cases: "(CHR ''{'' \<in> set (lines ! i) \<and> get_balance (lines ! i) curly = 0 \<longrightarrow>
            handle_function_token i (lines ! i) lines missed =
              (extract_curly_oneliner i (lines ! i) (lines ! i), missed))"
       "(CHR ''{'' \<in> set (lines ! i) \<and> get_balance (lines ! i) curly \<noteq> 0 \<longrightarrow>
            handle_function_token i (lines ! i) lines missed =
              (extract_curly_function i (get_balance (lines ! i) curly) (lines ! i) lines, missed))"
       "(CHR ''{'' \<notin> set (lines ! i) \<and> endswith (strip (lines ! i)) '':'' \<longrightarrow>
            handle_function_token i (lines ! i) lines missed =
              (extract_python_function i (lines ! i) (lines ! i) lines, missed))"
       "(CHR ''{'' \<notin> set (lines ! i) \<and> \<not> endswith (strip (lines ! i)) '':'' \<and>
          \<not> endswith (strip (lines ! i)) '';'' \<and> \<not> endswith (strip (lines ! i)) ''...'' \<and>
          get_balance (lines ! i) parens = 0 \<longrightarrow>
            handle_function_token i (lines ! i) lines missed =
              (extract_clean_oneliner i (lines ! i) (lines ! i), missed))"
    by (simp_all add: handle_function_token_def Let_def)
  have miss: "loop_body lx lines (i, methods, missed) = (i + 1, methods, missed + 1)"
    if "spec_select_extractor (lines ! i) = None"
    using assms that by (rule loop_body_missed)
  have cnt: "snd (snd (loop_body lx lines (i, methods, missed))) =
           (if spec_select_extractor (lines ! i) = None then missed + 1 else missed)"
  proof (cases "spec_select_extractor (lines ! i)")
    case None
    then show ?thesis using miss by simp
  next
    case (Some ex)
    obtain c body clean_body where "run_extractor ex i (lines ! i) lines = (c, body, clean_body)"
      by (cases "run_extractor ex i (lines ! i) lines") auto
    from loop_body_selected [of lx lines i tok name ex c body clean_body methods missed, OF assms Some this] Some
    show ?thesis by simp
  qed
  from sel cases miss cnt show ?thesis by blast
qed


theorem locator_selects_extractor_witness:
  "loop_body (\<lambda>l. [(Name_Function, ''f'')]) [''void f(int a,\<newline>'', ''       int b);\<newline>'']
     (0, [(''e'', ''e() {}'')], 2) = (1, [(''e'', ''e() {}'')], 3) \<and>
   handle_function_token 0 ''def f():\<newline>'' [''def f():\<newline>'', ''    pass\<newline>''] 2 =
     (extract_python_function 0 ''def f():\<newline>'' ''def f():\<newline>'' [''def f():\<newline>'', ''    pass\<newline>''], 2)"
proof -
  let ?lx = "\<lambda>l::string. [(Name_Function, ''f'')]"
  let ?miss = "[''void f(int a,\<newline>'', ''       int b);\<newline>'']"
  let ?py = "[''def f():\<newline>'', ''    pass\<newline>'']"
  have tok: "find (\<lambda>(tok, s). tok = Name_Function) (?lx (?miss ! 0)) = Some (Name_Function, ''f'')"
    "find (\<lambda>(tok, s). tok = Name_Function) (?lx (?py ! 0)) = Some (Name_Function, ''f'')"
    by simp_all
  have none: "spec_select_extractor (?miss ! 0) = None"
    by code_simp
  have py: "CHR ''{'' \<notin> set (?py ! 0) \<and> endswith (strip (?py ! 0)) '':''"
    by code_simp
  have a: "loop_body ?lx ?miss (0, [(''e'', ''e() {}'')], 2) = (1, [(''e'', ''e() {}'')], 3)"
    using locator_selects_extractor [where lx = ?lx and lines = ?miss and i = 0
        and methods = "[(''e'', ''e() {}'')]" and missed = 2, OF tok(1)] none by simp
  have b: "handle_function_token 0 (?py ! 0) ?py 2 =
             (extract_python_function 0 (?py ! 0) (?py ! 0) ?py, 2)"
    using locator_selects_extractor [where lx = ?lx and lines = ?py and i = 0
        and methods = "[]" and missed = 2, OF tok(2)] py by blast
  from a b show ?thesis by simp
qed

text \<open>
  C7. When an extractor was selected for a function-name token, the record of the name
  and the full text is appended exactly when the extractor's clean body, stripped of
  leading and trailing whitespace, is not empty; otherwise the records stay as they were.
\<close>

theorem record_iff_clean_body:
  assumes "find (\<lambda>(tok, s). tok = Name_Function) (lx (lines ! i)) = Some (tok, name)"
    and "spec_select_extractor (lines ! i) = Some ex"
    and "run_extractor ex i (lines ! i) lines = (c, body, clean_body)"
  shows "fst (snd (loop_body lx lines (i, methods, missed))) =
           (if strip clean_body \<noteq> [] then methods @ [(name, body)] else methods)"
  using assms by (simp add: loop_body_def handle_function_token_select)

theorem record_iff_clean_body_witness:
  "fst (snd (loop_body (\<lambda>l. [(Name_Function, ''f'')]) [''int f() { return 1; }\<newline>'']
     (0, [(''e'', ''e() {}'')], 0))) = [(''e'', ''e() {}''), (''f'', ''int f() { return 1; }\<newline>'')] \<and>
   fst (snd (loop_body (\<lambda>l. [(Name_Function, ''g'')]) [''void g() {  }\<newline>'']
     (0, [(''e'', ''e() {}'')], 0))) = [(''e'', ''e() {}'')]"
proof -
  let ?f = "[''int f() { return 1; }\<newline>'']" and ?g = "[''void g() {  }\<newline>'']"
  let ?lf = "\<lambda>l::string. [(Name_Function, ''f'')]" and ?lg = "\<lambda>l::string. [(Name_Function, ''g'')]"
  have tf: "find (\<lambda>(tok, s). tok = Name_Function) (?lf (?f ! 0)) = Some (Name_Function, ''f'')"
    and tg: "find (\<lambda>(tok, s). tok = Name_Function) (?lg (?g ! 0)) = Some (Name_Function, ''g'')"
    by simp_all
  have sf: "spec_select_extractor (?f ! 0) = Some Curly_Oneliner"
    and sg: "spec_select_extractor (?g ! 0) = Some Curly_Oneliner"
    by code_simp+
  have rf: "run_extractor Curly_Oneliner 0 (?f ! 0) ?f = (0, ''int f() { return 1; }\<newline>'', '' return 1; '')"
    and rg: "run_extractor Curly_Oneliner 0 (?g ! 0) ?g = (0, ''void g() {  }\<newline>'', ''  '')"
    by code_simp+
  have nf: "strip '' return 1; '' \<noteq> []" and ng: "strip ''  '' = []"
    by code_simp+
  from record_iff_clean_body [where lx = ?lf and lines = ?f and i = 0
        and methods = "[(''e'', ''e() {}'')]" and missed = 0, OF tf sf rf]
    record_iff_clean_body [where lx = ?lg and lines = ?g and i = 0
        and methods = "[(''e'', ''e() {}'')]" and missed = 0, OF tg sg rg] nf ng
  show ?thesis by simp
qed

section \<open>Skipped files\<close>

text \<open>
  C8. When looking up the lexer or reading the file raises \<open>UnicodeDecodeError\<close> or
  \<open>ClassNotFound\<close>, processing the file returns the empty record list and a miss count
  of 0; the exception does not reach the caller.
\<close>

theorem skipped_file_is_empty:
  assumes "get_lexer_for_filename fname = Inl e \<or>
           (\<exists>lx. get_lexer_for_filename fname = Inr lx \<and> readlines fname = Inl e)"
    and "e = UnicodeDecodeError \<or> e = ClassNotFound"
  shows "process_filename get_lexer_for_filename readlines fname = Some (Inr ([], 0))"
  using assms by (auto simp: process_filename_def except_clause_def)

theorem skipped_file_is_empty_witness:
  "process_filename (\<lambda>f. Inl ClassNotFound) (\<lambda>f. Inr [''x'']) ''logo.png'' = Some (Inr ([], 0)) \<and>
   process_filename (\<lambda>f. Inr (\<lambda>l. [])) (\<lambda>f. Inl UnicodeDecodeError) ''a.py'' = Some (Inr ([], 0))"
proof -
  have a: "process_filename (\<lambda>f. Inl ClassNotFound) (\<lambda>f. Inr [''x'']) ''logo.png'' =
             Some (Inr ([], 0))"
    using skipped_file_is_empty [where get_lexer_for_filename = "\<lambda>f. Inl ClassNotFound"
        and readlines = "\<lambda>f. Inr [''x'']" and fname = "''logo.png''" and e = ClassNotFound]
    by simp
  have b: "process_filename (\<lambda>f. Inr (\<lambda>l. [])) (\<lambda>f. Inl UnicodeDecodeError) ''a.py'' =
             Some (Inr ([], 0))"
    using skipped_file_is_empty [where get_lexer_for_filename = "\<lambda>f. Inr (\<lambda>l. [])"
        and readlines = "\<lambda>f. Inl UnicodeDecodeError" and fname = "''a.py''"
        and e = UnicodeDecodeError]
    by simp
  from a b show ?thesis by simp
qed


section \<open>Cursor bounds\<close>

lemma curly_loop_bounds:
  "j \<le> length lines \<Longrightarrow>
     int j - 1 \<le> fst (curly_loop j bal start header lines) \<and>
     fst (curly_loop j bal start header lines) \<le> int (length lines) - 1"
proof (induction j bal start header lines rule: curly_loop.induct)
  case (1 j bal start header lines)
  show ?case
  proof (cases "j < length lines")
    case False
    with "1.prems" show ?thesis by (subst (1 2) curly_loop.simps) simp
  next
    case True
    let ?cb = "bal + get_balance (lines ! j) curly"
    show ?thesis
    proof (cases "?cb = 0")
      case z: True
      with True show ?thesis by (subst (1 2) curly_loop.simps) simp
    next
      case nz: False
      have "int (j + 1) - 1 \<le> fst (curly_loop (j + 1) ?cb start header lines) \<and>
            fst (curly_loop (j + 1) ?cb start header lines) \<le> int (length lines) - 1"
        using True nz by (intro "1.IH") simp_all
      with True nz show ?thesis by (subst (1 2) curly_loop.simps) simp
    qed
  qed
qed

lemma extract_curly_function_bounds:
  assumes "start < length lines"
  shows "int start \<le> fst (extract_curly_function start init header lines)"
    and "fst (extract_curly_function start init header lines) \<le> int (length lines) - 1"
  using curly_loop_bounds [of "start + 1" lines init start header] assms
  by (simp_all add: extract_curly_function_def)

lemma python_loop_bounds:
  assumes "start < length lines"
  shows "start \<le> python_loop start ident lines" and "python_loop start ident lines < length lines"
proof -
  let ?block = "takeWhile (\<lambda>l. ident + 4 \<le> get_ident l) (drop (Suc start) lines)"
  have "length ?block \<le> length (drop (Suc start) lines)"
    by (rule length_takeWhile_le)
  then have "start + length ?block < length lines" using assms by simp
  then show "start \<le> python_loop start ident lines" "python_loop start ident lines < length lines"
    by (simp_all add: python_loop_eq)
qed

lemma extract_python_function_bounds:
  assumes "start < length lines"
  shows "int start \<le> fst (extract_python_function start header line lines)"
    and "fst (extract_python_function start header line lines) \<le> int (length lines) - 1"
  using python_loop_bounds [OF assms, of "get_ident line"]
  by (simp_all add: extract_python_function_def Let_def)

lemma run_extractor_bounds:
  assumes "start < length lines"
  shows "int start \<le> fst (run_extractor ex start line lines)"
    and "fst (run_extractor ex start line lines) \<le> int (length lines) - 1"
proof -
  have "int start \<le> fst (run_extractor ex start line lines) \<and>
        fst (run_extractor ex start line lines) \<le> int (length lines) - 1"
  proof (cases ex)
    case Curly_Oneliner
    then show ?thesis
      using assms by (simp add: extract_curly_oneliner_def split: prod.splits)
  next
    case Curly_Multiline
    then show ?thesis
      using extract_curly_function_bounds [OF assms] by simp
  next
    case Indentation_Block
    then show ?thesis
      using extract_python_function_bounds [OF assms] by simp
  next
    case Bare_Oneliner
    then show ?thesis
      using assms by (simp add: extract_clean_oneliner_def)
  qed
  then show "int start \<le> fst (run_extractor ex start line lines)"
    and "fst (run_extractor ex start line lines) \<le> int (length lines) - 1"
    by simp_all
qed

text \<open>
  C9. On a line list with \<open>start\<close> a valid index, every extractor returns a cursor
  that is at least \<open>start\<close> and at most the last line index: the two one-liners return
  \<open>start\<close> itself, the curly multi-line and the indentation-block extractor a cursor
  between \<open>start\<close> and \<open>len(lines) - 1\<close>.
\<close>

theorem cursor_stays_in_range:
  assumes "start < length lines"
  shows "fst (extract_curly_oneliner start header line) = int start \<and>
         fst (extract_clean_oneliner start header line) = int start \<and>
         int start \<le> fst (extract_curly_function start init header lines) \<and>
         fst (extract_curly_function start init header lines) \<le> int (length lines) - 1 \<and>
         int start \<le> fst (extract_python_function start header line lines) \<and>
         fst (extract_python_function start header line lines) \<le> int (length lines) - 1 \<and>
         int start \<le> int (length lines) - 1"
  using assms extract_curly_function_bounds [OF assms] extract_python_function_bounds [OF assms]
  by (simp add: extract_curly_oneliner_def extract_clean_oneliner_def split: prod.splits)


theorem cursor_stays_in_range_witness:
  "int 1 \<le> fst (extract_curly_function 1 1 ''f() {\<newline>'' [''a\<newline>'', ''f() {\<newline>'', ''}\<newline>'', ''b\<newline>'']) \<and>
   fst (extract_curly_function 1 1 ''f() {\<newline>'' [''a\<newline>'', ''f() {\<newline>'', ''}\<newline>'', ''b\<newline>'']) \<le> 3 \<and>
   int 1 \<le> fst (extract_python_function 1 ''f:\<newline>'' ''f:\<newline>'' [''a\<newline>'', ''f:\<newline>'', ''    c\<newline>'', ''    d\<newline>'']) \<and>
   fst (extract_python_function 1 ''f:\<newline>'' ''f:\<newline>'' [''a\<newline>'', ''f:\<newline>'', ''    c\<newline>'', ''    d\<newline>'']) \<le> 3"
proof -
  let ?c = "[''a\<newline>'', ''f() {\<newline>'', ''}\<newline>'', ''b\<newline>'']"
  let ?p = "[''a\<newline>'', ''f:\<newline>'', ''    c\<newline>'', ''    d\<newline>'']"
  have c: "1 < length ?c" and p: "1 < length ?p" by simp_all
  from cursor_stays_in_range [OF c, of "''f() {\<newline>''" "''f() {\<newline>''" 1]
    cursor_stays_in_range [OF p, of "''f:\<newline>''" "''f:\<newline>''" 0]
  show ?thesis by simp
qed

section \<open>Termination of the scan\<close>

lemma loop_body_advances:
  assumes "i < length lines"
  shows "i < fst (loop_body lx lines (i, methods, missed))"
proof (cases "find (\<lambda>(tok, s). tok = Name_Function) (lx (lines ! i))")
  case None
  then show ?thesis by (simp add: loop_body_no_token)
next
  case (Some ts)
  obtain tok name where ts: "ts = (tok, name)" by (cases ts)
  show ?thesis
  proof (cases "spec_select_extractor (lines ! i)")
    case None
    with Some ts show ?thesis by (simp add: loop_body_missed)
  next
    case sel: (Some ex)
    obtain c body clean_body where r: "run_extractor ex i (lines ! i) lines = (c, body, clean_body)"
      by (cases "run_extractor ex i (lines ! i) lines") auto
    have "int i \<le> c"
      using run_extractor_bounds(1) [OF assms, of ex "lines ! i"] r by simp
    then show ?thesis
      using Some ts sel r by (simp add: loop_body_selected)
  qed
qed

lemma scan_returns:
  "\<exists>r. scan lx lines (i, methods, missed) = Some r"
proof (induction "length lines - i" arbitrary: i methods missed rule: less_induct)
  case less
  show ?case
  proof (cases "i < length lines")
    case False
    then show ?thesis by (subst scan.simps) simp
  next
    case True
    obtain i' methods' missed' where st: "loop_body lx lines (i, methods, missed) = (i', methods', missed')"
      by (cases "loop_body lx lines (i, methods, missed)") auto
    have "i < i'" using loop_body_advances [OF True, of lx methods missed] st by simp
    then have "length lines - i' < length lines - i" using True by simp
    then have "\<exists>r. scan lx lines (i', methods', missed') = Some r" by (rule less)
    then show ?thesis using True st by (subst scan.simps) simp
  qed
qed

text \<open>
  C10. The scan of a file returns, for every line list and every lexer. In each round
  at a line \<open>i\<close> below \<open>len(lines)\<close>: with no function-name token on the line, or
  with no extractor selected for it, the cursor moves to \<open>i + 1\<close>; with an extractor
  selected, the extractor's cursor is at least \<open>i\<close> and the scan moves one past it.
  So \<open>i\<close> grows in every round and never passes \<open>len(lines)\<close>, and the scan started
  from any state, the initial one \<open>(0, [], 0)\<close> among them, yields a result.
\<close>

theorem scan_terminates:
  "(\<forall>i methods missed. i < length lines \<longrightarrow>
      (find (\<lambda>(tok, s). tok = Name_Function) (lx (lines ! i)) = None \<or>
       spec_select_extractor (lines ! i) = None \<longrightarrow>
         fst (loop_body lx lines (i, methods, missed)) = i + 1) \<and>
      (\<forall>ex. find (\<lambda>(tok, s). tok = Name_Function) (lx (lines ! i)) \<noteq> None \<and>
         spec_select_extractor (lines ! i) = Some ex \<longrightarrow>
         int i \<le> fst (run_extractor ex i (lines ! i) lines) \<and>
         int (fst (loop_body lx lines (i, methods, missed))) =
           fst (run_extractor ex i (lines ! i) lines) + 1) \<and>
      i < fst (loop_body lx lines (i, methods, missed)) \<and>
      fst (loop_body lx lines (i, methods, missed)) \<le> length lines) \<and>
   (\<forall>i methods missed. \<exists>r. scan lx lines (i, methods, missed) = Some r) \<and>
   (\<exists>r. scan lx lines (0, [], 0) = Some r)"
proof -
  have step: "(find (\<lambda>(tok, s). tok = Name_Function) (lx (lines ! i)) = None \<or>
       spec_select_extractor (lines ! i) = None \<longrightarrow>
         fst (loop_body lx lines (i, methods, missed)) = i + 1) \<and>
      (\<forall>ex. find (\<lambda>(tok, s). tok = Name_Function) (lx (lines ! i)) \<noteq> None \<and>
         spec_select_extractor (lines ! i) = Some ex \<longrightarrow>
         int i \<le> fst (run_extractor ex i (lines ! i) lines) \<and>
         int (fst (loop_body lx lines (i, methods, missed))) =
           fst (run_extractor ex i (lines ! i) lines) + 1) \<and>
      i < fst (loop_body lx lines (i, methods, missed)) \<and>
      fst (loop_body lx lines (i, methods, missed)) \<le> length lines"
    if i: "i < length lines" for i methods missed
  proof (cases "find (\<lambda>(tok, s). tok = Name_Function) (lx (lines ! i))")
    case None
    then show ?thesis using i by (simp add: loop_body_no_token)
  next
    case (Some ts)
    obtain tok name where ts: "ts = (tok, name)" by (cases ts)
    show ?thesis
    proof (cases "spec_select_extractor (lines ! i)")
      case None
      with Some ts i show ?thesis by (simp add: loop_body_missed)
    next
      case sel: (Some ex)
      obtain c body clean_body where r: "run_extractor ex i (lines ! i) lines = (c, body, clean_body)"
        by (cases "run_extractor ex i (lines ! i) lines") auto
      have "int i \<le> c" "c \<le> int (length lines) - 1"
        using run_extractor_bounds [OF i, of ex "lines ! i"] r by simp_all
      then have "i < nat (c + 1)" "nat (c + 1) \<le> length lines" "int (nat (c + 1)) = c + 1"
        by linarith+
      then show ?thesis
        using \<open>int i \<le> c\<close> Some ts sel r by (simp add: loop_body_selected)
    qed
  qed
  from step scan_returns [of lx lines] show ?thesis by blast
qed

theorem scan_terminates_witness:
  "fst (loop_body (\<lambda>l. if l = ''def f():\<newline>'' then [(Name_Function, ''f'')] else [])
     [''def f():\<newline>'', ''    pass\<newline>'', ''x = 1\<newline>''] (0, [], 0)) = 2 \<and>
   (\<exists>r. scan (\<lambda>l. if l = ''def f():\<newline>'' then [(Name_Function, ''f'')] else [])
     [''def f():\<newline>'', ''    pass\<newline>'', ''x = 1\<newline>''] (0, [], 0) = Some r)"
proof -
  let ?lx = "\<lambda>l. if l = ''def f():\<newline>'' then [(Name_Function, ''f'')] else []"
  let ?lines = "[''def f():\<newline>'', ''    pass\<newline>'', ''x = 1\<newline>'']"
  note t = scan_terminates [of ?lines ?lx]
  have i: "0 < length ?lines" by simp
  have tok: "find (\<lambda>(tok, s). tok = Name_Function) (?lx (?lines ! 0)) \<noteq> None" by simp
  have sel: "spec_select_extractor (?lines ! 0) = Some Indentation_Block" by code_simp
  have run: "fst (run_extractor Indentation_Block 0 (?lines ! 0) ?lines) = 1" by code_simp
  from t i tok sel have "int (fst (loop_body ?lx ?lines (0, [], 0))) =
      fst (run_extractor Indentation_Block 0 (?lines ! 0) ?lines) + 1"
    by blast
  with run have a: "fst (loop_body ?lx ?lines (0, [], 0)) = 2" by simp
  from t have b: "\<exists>r. scan ?lx ?lines (0, [], 0) = Some r" by blast
  from a b show ?thesis by simp
qed


end
